theory Spec2Isabelle
  imports Main "HOL-Library.Char_ord" "HOL-Library.List_Lexorder"
begin

section \<open>The AEIF dataset adapter of kiss-icp (python/kiss_icp/datasets/aeif.py)\<close>

text \<open>
  The class \<open>AEIFDataset\<close> exposes the recording files of a sequence as one flat,
  index-addressable list of frames. What Python raises is a value of \<open>error\<close>;
  a function that may raise returns \<open>error + 'a\<close>, with \<open>Inl\<close> the exception.
  \<open>ExternalError\<close> is any exception of the reader library that is neither of the
  other two.
\<close>

datatype error = ValueError | IndexError | ExternalError

subsection \<open>Frame index: \<open>_find_file_and_frame\<close>\<close>

text \<open>
  \<^verbatim>\<open>
  def _find_file_and_frame(self, target):
      total = 0
      for file_idx, num in enumerate(self._frames_per_file):
          total += num
          if target < total:
              frame_idx = target - (total - num)
              return file_idx, frame_idx
      raise ValueError("Target out of range")
  \<close>
  The loop is \<open>find_loop\<close>: its arguments are the target, the loop variables
  \<open>file_idx\<close> and \<open>total\<close> (here \<open>tot\<close>), and the entries of the table not yet visited.
  Frame counts and targets are Python integers, so \<open>int\<close>.
\<close>

fun find_loop :: "int \<Rightarrow> nat \<Rightarrow> int \<Rightarrow> int list \<Rightarrow> error + (nat \<times> int)" where
  "find_loop target file_idx tot [] = Inl ValueError"
| "find_loop target file_idx tot (num # rest) =
     (let tot' = tot + num in
      if target < tot' then Inr (file_idx, target - (tot' - num))
      else find_loop target (Suc file_idx) tot' rest)"

definition find_file_and_frame :: "int list \<Rightarrow> int \<Rightarrow> error + (nat \<times> int)" where
  "find_file_and_frame frames_per_file target = find_loop target 0 0 frames_per_file"

text \<open>The cumulative frame count of the first \<open>k\<close> files of the table.\<close>

definition cumulative :: "int list \<Rightarrow> nat \<Rightarrow> int" where
  "cumulative frames_per_file k = sum_list (take k frames_per_file)"

subsection \<open>Python library functions the class calls\<close>

text \<open>
  \<open>str.split(sep)\<close> for a separator of one character: the pieces between the
  occurrences of \<open>sep\<close>; the result is never empty.
\<close>

fun split_on :: "char \<Rightarrow> string \<Rightarrow> string list" where
  "split_on sep [] = [[]]"
| "split_on sep (c # cs) =
     (if c = sep then [] # split_on sep cs
      else (case split_on sep cs of [] \<Rightarrow> [[c]] | piece # pieces \<Rightarrow> (c # piece) # pieces))"

text \<open>
  \<open>int(s)\<close> on an ASCII string, base 10: surrounding whitespace (tab, line feed,
  vertical tab, form feed, carriage return, space) is dropped, one sign is allowed,
  and the digits may be grouped by single underscores. Anything else is
  \<open>ValueError\<close>. (Characters are bytes here; the interpreter's configurable limit on
  the number of digits is not part of the model.)
\<close>

definition is_space :: "char \<Rightarrow> bool" where
  "is_space c = (of_char c \<in> {9::nat, 10, 11, 12, 13, 32})"

definition is_digit :: "char \<Rightarrow> bool" where
  "is_digit c = (48 \<le> (of_char c :: nat) \<and> (of_char c :: nat) \<le> 57)"

definition digit_val :: "char \<Rightarrow> int" where
  "digit_val c = int (of_char c) - 48"

definition strip :: "string \<Rightarrow> string" where
  "strip s = rev (dropWhile is_space (rev (dropWhile is_space s)))"

fun digits_value :: "int \<Rightarrow> string \<Rightarrow> int option" where
  "digits_value acc [] = Some acc"
| "digits_value acc [c] = (if is_digit c then Some (10 * acc + digit_val c) else None)"
| "digits_value acc (c # d # cs) =
     (if is_digit c then digits_value (10 * acc + digit_val c) (d # cs)
      else if c = CHR ''_'' \<and> is_digit d then digits_value (10 * acc + digit_val d) cs
      else None)"

definition unsigned_int :: "string \<Rightarrow> error + int" where
  "unsigned_int s =
     (case s of
        [] \<Rightarrow> Inl ValueError
      | d # cs \<Rightarrow>
          if is_digit d
          then (case digits_value (digit_val d) cs of None \<Rightarrow> Inl ValueError | Some v \<Rightarrow> Inr v)
          else Inl ValueError)"

definition py_int :: "string \<Rightarrow> error + int" where
  "py_int s =
     (case strip s of
        [] \<Rightarrow> Inl ValueError
      | c # cs \<Rightarrow>
          if c = CHR ''+'' then unsigned_int cs
          else if c = CHR ''-'' then map_sum id uminus (unsigned_int cs)
          else unsigned_int (c # cs))"

text \<open>\<open>os.path.basename\<close> and \<open>os.path.join\<close> (two arguments) on POSIX paths.\<close>

definition basename :: "string \<Rightarrow> string" where
  "basename p = rev (takeWhile (\<lambda>c. c \<noteq> CHR ''/'') (rev p))"

definition path_join :: "string \<Rightarrow> string \<Rightarrow> string" where
  "path_join a b =
     (if b \<noteq> [] \<and> hd b = CHR ''/'' then b
      else if a = [] \<or> last a = CHR ''/'' then a @ b
      else a @ ''/'' @ b)"

text \<open>
  Indexing and slicing of a Python list. An index below 0 counts from the end; a
  slice never raises.
\<close>

definition py_index :: "'a list \<Rightarrow> int \<Rightarrow> error + 'a" where
  "py_index xs i =
     (if 0 \<le> i \<and> i < int (length xs) then Inr (xs ! nat i)
      else if i < 0 \<and> - int (length xs) \<le> i then Inr (xs ! nat (int (length xs) + i))
      else Inl IndexError)"

definition py_slice :: "'a list \<Rightarrow> nat \<Rightarrow> nat \<Rightarrow> 'a list" where
  "py_slice xs a b = take (b - a) (drop a xs)"

subsection \<open>Sequence resolver: the specifier and \<open>_filter_file_range\<close>\<close>

text \<open>
  The \<open>try\<close> block of \<open>__init__\<close>:
  \<^verbatim>\<open>
  try:
      self._sequence_name, file_range = sequence.split("#")
      start_id, end_id = map(int, file_range.split("-"))
  except ValueError:
      self._sequence_name = sequence
      start_id, end_id = None, None
      print("No maneuver specified. ...")
  \<close>
  Both unpackings raise \<open>ValueError\<close> unless they get exactly two values, and so does
  \<open>int\<close> on a piece that is no number; the handler then takes the whole specifier as
  the name. The result is the name and the range, \<open>None\<close> when the handler ran.
\<close>

definition parse_sequence :: "string \<Rightarrow> string \<times> (int \<times> int) option" where
  "parse_sequence sequence =
     (case split_on CHR ''#'' sequence of
        [name, file_range] \<Rightarrow>
          (case map py_int (split_on CHR ''-'' file_range) of
             [Inr start_id, Inr end_id] \<Rightarrow> (name, Some (start_id, end_id))
           | _ \<Rightarrow> (sequence, None))
      | _ \<Rightarrow> (sequence, None))"

definition no_maneuver_message :: string where
  "no_maneuver_message =
     ''No maneuver specified. Processing all files at once. '' @
     ''To process a specific range, specify `sequence#id-id`.''"

text \<open>
  \<open>file_id = int(file_name.split('_')[0][2:])\<close> of \<open>_filter_file_range\<close>, on the
  base name of the path.
\<close>

definition file_id :: "string \<Rightarrow> error + int" where
  "file_id file_path =
     (case split_on CHR ''_'' (basename file_path) of
        [] \<Rightarrow> Inl IndexError
      | token # _ \<Rightarrow> py_int (drop 2 token))"

text \<open>
  \<^verbatim>\<open>
  for idx, file_path in enumerate(all_files):
      file_name = os.path.basename(file_path)
      file_id = int(file_name.split('_')[0][2:])
      if file_id == start_id and start_file == 0:
          start_file = idx
      if file_id == end_id:
          end_file = idx + 1
          break
  return start_file, end_file
  \<close>
  The arguments of \<open>filter_loop\<close> are the two ids, the loop variables \<open>idx\<close>,
  \<open>start_file\<close> and \<open>end_file\<close>, and the files not yet visited.
\<close>

fun filter_loop ::
  "int \<Rightarrow> int \<Rightarrow> nat \<Rightarrow> nat \<Rightarrow> nat \<Rightarrow> string list \<Rightarrow> error + (nat \<times> nat)" where
  "filter_loop start_id end_id idx start_file end_file [] = Inr (start_file, end_file)"
| "filter_loop start_id end_id idx start_file end_file (file_path # rest) =
     (case file_id file_path of
        Inl e \<Rightarrow> Inl e
      | Inr fid \<Rightarrow>
          (let start_file' = (if fid = start_id \<and> start_file = 0 then idx else start_file)
           in if fid = end_id then Inr (start_file', idx + 1)
              else filter_loop start_id end_id (Suc idx) start_file' end_file rest))"

text \<open>
  \<open>glob\<close> is \<open>glob.glob\<close> on the file system the object is built on: the paths that
  match a pattern, in no particular order. \<open>sorted\<close> orders them as Python orders
  strings, character by character.
\<close>

definition filter_file_range ::
  "(string \<Rightarrow> string list) \<Rightarrow> string \<Rightarrow> int option \<Rightarrow> int option \<Rightarrow> error + (nat \<times> nat)" where
  "filter_file_range glob aeif_sequence_dir start_id end_id =
     (let all_files = sort (glob (path_join aeif_sequence_dir ''*.4mse''));
          start_file = 0;
          end_file = length all_files
      in case (start_id, end_id) of
           (Some s, Some e) \<Rightarrow> filter_loop s e 0 start_file end_file all_files
         | _ \<Rightarrow> Inr (start_file, end_file))"

text \<open>The index of the first entry of a list that equals \<open>x\<close>, when there is one.\<close>

fun first_index :: "int list \<Rightarrow> int \<Rightarrow> nat option" where
  "first_index [] x = None"
| "first_index (y # ys) x = (if y = x then Some 0 else map_option Suc (first_index ys x))"

text \<open>
  The ids of the files the loop visits before it stops: those up to and including the
  first file whose id is \<open>endID\<close>, all of them when there is none.
\<close>

definition scanned_ids :: "int list \<Rightarrow> int \<Rightarrow> int list" where
  "scanned_ids ids end_id =
     (case first_index ids end_id of None \<Rightarrow> ids | Some j \<Rightarrow> take (j + 1) ids)"

text \<open>
  Range resolution as the specification words it, on the ids of the sorted files. The
  scan stops at the first file whose id is \<open>endID\<close>, and \<open>end_file\<close> is the index of
  that file plus 1, the number of files when there is none. \<open>start_file\<close> is the index
  of the first file of the scan whose id is \<open>startID\<close> (only the first match is taken),
  0 when there is none.
\<close>

definition spec_filter_file_range :: "int list \<Rightarrow> int \<Rightarrow> int \<Rightarrow> nat \<times> nat" where
  "spec_filter_file_range ids start_id end_id =
     (case first_index (scanned_ids ids end_id) start_id of None \<Rightarrow> 0 | Some i \<Rightarrow> i,
      case first_index ids end_id of None \<Rightarrow> length ids | Some j \<Rightarrow> j + 1)"

subsection \<open>File records, frames and the dataset object\<close>

text \<open>
  A frame and a file record belong to the reader library \<open>aeifdataset\<close>. The class
  reads a frame's \<open>timestamp\<close>, \<open>vehicle.lidars.TOP\<close> and
  \<open>vehicle.cameras.STEREO_LEFT\<close>, and a record's \<open>num_frames\<close>; it iterates over a
  record (\<open>frames\<close> is what the iteration yields) and indexes it (\<open>get_frame\<close>).
  A record is the collection of these observations, with nothing assumed about how
  they relate.
\<close>

record ('ts, 'lidar, 'img) frame =
  timestamp :: 'ts
  lidar_TOP :: 'lidar
  camera_STEREO_LEFT :: 'img

record 'fr file_record =
  num_frames :: int
  frames :: "'fr list"
  get_frame :: "int \<Rightarrow> error + 'fr"

text \<open>
  The environment of a construction: \<open>glob.glob\<close> on the file system, and the
  reader's \<open>Dataloader(directory)\<close>, an ordered collection of file records.
\<close>

record 'fr env =
  glob :: "string \<Rightarrow> string list"
  Dataloader :: "string \<Rightarrow> error + 'fr file_record list"

record 'fr dataset =
  sequence_id :: string
  sequence_name :: string
  aeif_sequence_dir :: string
  start_file :: nat
  end_file :: nat
  scan_files :: "'fr file_record list"
  files_buffer :: "'fr file_record list"
  frames_per_file :: "int list"

definition create_buffer :: "'fr file_record list \<Rightarrow> 'fr file_record list" where
  "create_buffer scans = foldl (\<lambda>buffer r. buffer @ [r]) [] scans"

definition get_num_frames :: "'fr file_record list \<Rightarrow> int list" where
  "get_num_frames buffer = foldl (\<lambda>acc r. acc @ [num_frames r]) [] buffer"

text \<open>
  \<open>__init__\<close>: the object built, and the lines printed on the way. It raises what
  \<open>_filter_file_range\<close> or the reader raises.
\<close>

definition init :: "'fr env \<Rightarrow> string \<Rightarrow> string \<Rightarrow> error + ('fr dataset \<times> string list)" where
  "init env data_dir sequence =
     (let (name, range) = parse_sequence sequence;
          printed = (case range of None \<Rightarrow> [no_maneuver_message] | Some _ \<Rightarrow> []);
          dir = path_join data_dir name
      in case filter_file_range (glob env) dir (map_option fst range) (map_option snd range) of
           Inl e \<Rightarrow> Inl e
         | Inr (first_file, last_file) \<Rightarrow>
             (case Dataloader env dir of
                Inl e \<Rightarrow> Inl e
              | Inr records \<Rightarrow>
                  (let scans = py_slice records first_file last_file;
                       buffer = create_buffer scans
                   in Inr (\<lparr>sequence_id = sequence, sequence_name = name,
                             aeif_sequence_dir = dir,
                             start_file = first_file, end_file = last_file,
                             scan_files = scans, files_buffer = buffer,
                             frames_per_file = get_num_frames buffer\<rparr>, printed))))"

text \<open>\<open>__len__\<close> is \<open>sum(self._frames_per_file)\<close>.\<close>

definition len :: "'fr dataset \<Rightarrow> int" where
  "len d = sum_list (frames_per_file d)"

text \<open>
  \<open>read_point_cloud\<close> takes the frame from the record and hands its top lidar
  payload to numpy (\<open>np.stack\<close> and \<open>_get_timestamps\<close>, floating-point array
  arithmetic): \<open>to_arrays\<close> stands for that part.
\<close>

definition read_point_cloud ::
  "('lidar \<Rightarrow> error + 'pc) \<Rightarrow> ('ts, 'lidar, 'img) frame file_record \<Rightarrow> int \<Rightarrow> error + 'pc" where
  "read_point_cloud to_arrays scan_file frame_idx =
     (case get_frame scan_file frame_idx of
        Inl e \<Rightarrow> Inl e
      | Inr fr \<Rightarrow> to_arrays (lidar_TOP fr))"

definition scans ::
  "('lidar \<Rightarrow> error + 'pc) \<Rightarrow> ('ts, 'lidar, 'img) frame dataset \<Rightarrow> int \<Rightarrow> int \<Rightarrow> error + 'pc" where
  "scans to_arrays d file_idx frame_idx =
     (case py_index (files_buffer d) file_idx of
        Inl e \<Rightarrow> Inl e
      | Inr scan_file \<Rightarrow> read_point_cloud to_arrays scan_file frame_idx)"

definition getitem ::
  "('lidar \<Rightarrow> error + 'pc) \<Rightarrow> ('ts, 'lidar, 'img) frame dataset \<Rightarrow> int \<Rightarrow> error + 'pc" where
  "getitem to_arrays d idx =
     (case find_file_and_frame (frames_per_file d) idx of
        Inl e \<Rightarrow> Inl e
      | Inr (file_idx, frame_idx) \<Rightarrow> scans to_arrays d (int file_idx) frame_idx)"

text \<open>
  \<^verbatim>\<open>
  def get_frames_timestamps(self) -> np.ndarray:
      timestamps = []
      for file in self._files_buffer:
          for frame in file:
              timestamps.append(frame.timestamp)
      timestamps = np.array(timestamps).reshape(-1, 1)
      return timestamps
  \<close>
  The array of shape (N, 1) is the list of its N rows, each of one entry.
\<close>

definition get_frames_timestamps :: "('ts, 'lidar, 'img) frame dataset \<Rightarrow> 'ts list list" where
  "get_frames_timestamps d =
     (let timestamps =
            foldl (\<lambda>acc file. foldl (\<lambda>acc fr. acc @ [timestamp fr]) acc (frames file))
              [] (files_buffer d)
      in map (\<lambda>t. [t]) timestamps)"

text \<open>
  \<^verbatim>\<open>
  def project_points(self, idx, points=None):
      file_idx, frame_idx = self._find_file_and_frame(idx)
      img = self._files_buffer[file_idx][frame_idx+1].vehicle.cameras.STEREO_LEFT
      if points is None:
          lidar = self._files_buffer[file_idx][frame_idx].vehicle.lidars.TOP
      else:
          lidar_info = self._files_buffer[file_idx][frame_idx].vehicle.lidars.TOP.info
          lidar = Lidar(lidar_info, Points(points))
      proj_img = get_projection_img(img, lidar)
      proj_img.save(f'{idx}.png')
  \<close>
  \<open>get_projection_img\<close> and the construction of a lidar payload from given points
  (\<open>with_points\<close>) are the reader library's. The result is the image saved, with the
  index that names its file.
\<close>

definition project_points ::
  "('img \<Rightarrow> 'lidar \<Rightarrow> 'proj) \<Rightarrow> ('lidar \<Rightarrow> 'pts \<Rightarrow> 'lidar) \<Rightarrow>
   ('ts, 'lidar, 'img) frame dataset \<Rightarrow> int \<Rightarrow> 'pts option \<Rightarrow> error + (int \<times> 'proj)" where
  "project_points get_projection_img with_points d idx points =
     (case find_file_and_frame (frames_per_file d) idx of
        Inl e \<Rightarrow> Inl e
      | Inr (file_idx, frame_idx) \<Rightarrow>
          (case py_index (files_buffer d) (int file_idx) of
             Inl e \<Rightarrow> Inl e
           | Inr file \<Rightarrow>
               (case get_frame file (frame_idx + 1) of
                  Inl e \<Rightarrow> Inl e
                | Inr next_frame \<Rightarrow>
                    (case get_frame file frame_idx of
                       Inl e \<Rightarrow> Inl e
                     | Inr this_frame \<Rightarrow>
                         (let img = camera_STEREO_LEFT next_frame;
                              lidar = (case points of
                                         None \<Rightarrow> lidar_TOP this_frame
                                       | Some pts \<Rightarrow> with_points (lidar_TOP this_frame) pts)
                          in Inr (idx, get_projection_img img lidar))))))"

subsection \<open>A recording on disk, for the examples\<close>

text \<open>
  The directory \<open>data/seq\<close> holds five recording files with the ids 10 to 14, which
  \<open>glob\<close> lists in no particular order; no other directory exists. The reader of the
  example opens a directory that does not exist as an empty collection, and its
  records refuse a local index outside their frames. A frame's timestamp is 100 times
  the id of its file plus its local index.
\<close>

definition example_files :: "string list" where
  "example_files =
     [''data/seq/id12_2024-09-27_10-33-32.4mse'',
      ''data/seq/id10_2024-09-27_10-31-32.4mse'',
      ''data/seq/id14_2024-09-27_10-35-32.4mse'',
      ''data/seq/id11_2024-09-27_10-32-32.4mse'',
      ''data/seq/id13_2024-09-27_10-34-32.4mse'']"

definition example_frame :: "int \<Rightarrow> (int, unit, unit) frame" where
  "example_frame t = \<lparr>timestamp = t, lidar_TOP = (), camera_STEREO_LEFT = ()\<rparr>"

definition example_record :: "int \<Rightarrow> nat \<Rightarrow> (int, unit, unit) frame file_record" where
  "example_record fid n =
     \<lparr>num_frames = int n,
      frames = map (\<lambda>k. example_frame (100 * fid + int k)) [0..<n],
      get_frame = (\<lambda>i. if 0 \<le> i \<and> i < int n then Inr (example_frame (100 * fid + i))
                         else Inl ValueError)\<rparr>"

definition example_env :: "(int, unit, unit) frame env" where
  "example_env =
     \<lparr>glob = (\<lambda>pattern. if pattern = ''data/seq/*.4mse'' then example_files else []),
      Dataloader = (\<lambda>dir. if dir = ''data/seq''
                           then Inr [example_record 10 2, example_record 11 3, example_record 12 1,
                                     example_record 13 2, example_record 14 2]
                           else Inr [])\<rparr>"

text \<open>The object that \<open>AEIFDataset("data", "seq#11-13")\<close> builds on this recording.\<close>

definition example_dataset :: "(int, unit, unit) frame dataset" where
  "example_dataset =
     \<lparr>sequence_id = ''seq#11-13'', sequence_name = ''seq'', aeif_sequence_dir = ''data/seq'',
      start_file = 1, end_file = 4,
      scan_files = [example_record 11 3, example_record 12 1, example_record 13 2],
      files_buffer = [example_record 11 3, example_record 12 1, example_record 13 2],
      frames_per_file = [3, 1, 2]\<rparr>"

text \<open>
  A second directory, \<open>data/run\<close>, in which two recording files carry the id 5: the
  sorted listing has the ids 5, 5, 7.
\<close>

definition repeated_id_glob :: "string \<Rightarrow> string list" where
  "repeated_id_glob pattern =
     (if pattern = ''data/run/*.4mse''
      then [''data/run/id7_2024-09-27_10-33-32.4mse'',
            ''data/run/id5_2024-09-27_10-32-32.4mse'',
            ''data/run/id5_2024-09-27_10-31-32.4mse'']
      else [])"

subsection \<open>Properties of the lookup\<close>

lemma find_loop_sound:
  "find_loop t k tot fs = Inr (i, r) \<Longrightarrow>
     \<exists>j < length fs. i = k + j \<and> r = t - (tot + sum_list (take j fs))
        \<and> t < tot + sum_list (take (Suc j) fs)
        \<and> (\<forall>m < j. tot + sum_list (take (Suc m) fs) \<le> t)"
proof (induction fs arbitrary: k tot)
  case Nil
  then show ?case by simp
next
  case (Cons num rest)
  show ?case
  proof (cases "t < tot + num")
    case True
    with Cons.prems have "i = k" "r = t - tot" by (simp_all add: Let_def)
    with True show ?thesis by (intro exI [of _ 0]) simp
  next
    case False
    with Cons.prems have "find_loop t (Suc k) (tot + num) rest = Inr (i, r)"
      by (simp add: Let_def)
    from Cons.IH [OF this] obtain j where j: "j < length rest" "i = Suc k + j"
      "r = t - (tot + num + sum_list (take j rest))"
      "t < tot + num + sum_list (take (Suc j) rest)"
      "\<forall>m < j. tot + num + sum_list (take (Suc m) rest) \<le> t"
      by blast
    have "\<forall>m < Suc j. tot + sum_list (take (Suc m) (num # rest)) \<le> t"
    proof (intro allI impI)
      fix m assume "m < Suc j"
      show "tot + sum_list (take (Suc m) (num # rest)) \<le> t"
      proof (cases m)
        case 0
        with False show ?thesis by simp
      next
        case (Suc m')
        with \<open>m < Suc j\<close> j(5) show ?thesis by (simp add: add.assoc)
      qed
    qed
    with j show ?thesis
      by (intro exI [of _ "Suc j"]) (simp add: add.assoc)
  qed
qed

lemma find_loop_returns:
  "tot \<le> t \<Longrightarrow> t < tot + sum_list fs \<Longrightarrow> \<exists>i r. find_loop t k tot fs = Inr (i, r)"
proof (induction fs arbitrary: k tot)
  case Nil
  then show ?case by simp
next
  case (Cons num rest)
  show ?case
  proof (cases "t < tot + num")
    case True
    then show ?thesis by (simp add: Let_def)
  next
    case False
    with Cons.prems have "tot + num \<le> t" "t < (tot + num) + sum_list rest" by simp_all
    from Cons.IH [OF this] False show ?thesis by (simp add: Let_def)
  qed
qed

lemma find_loop_raises:
  "\<forall>n \<in> set fs. 0 \<le> n \<Longrightarrow> tot + sum_list fs \<le> t \<Longrightarrow> find_loop t k tot fs = Inl ValueError"
proof (induction fs arbitrary: k tot)
  case Nil
  then show ?case by simp
next
  case (Cons num rest)
  from Cons.prems have nn: "0 \<le> num" "0 \<le> sum_list rest"
    by (simp_all add: sum_list_nonneg)
  with Cons.prems have "\<not> t < tot + num" by simp
  moreover from Cons.prems have "find_loop t (Suc k) (tot + num) rest = Inl ValueError"
    by (intro Cons.IH) (simp_all add: add.assoc)
  ultimately show ?case by (simp add: Let_def)
qed

lemma find_file_and_frame_char:
  assumes "0 \<le> t" and "t < sum_list fs"
  shows "\<exists>k < length fs. find_file_and_frame fs t = Inr (k, t - cumulative fs k)
           \<and> t < cumulative fs (Suc k) \<and> (\<forall>m < k. cumulative fs (Suc m) \<le> t)"
proof -
  from assms find_loop_returns [of 0 t fs 0] obtain i r
    where ir: "find_loop t 0 0 fs = Inr (i, r)" by auto
  from find_loop_sound [OF ir] ir show ?thesis
    by (auto simp: find_file_and_frame_def cumulative_def)
qed

lemma find_file_and_frame_ge_total:
  assumes "\<forall>n \<in> set fs. 0 \<le> n" and "sum_list fs \<le> t"
  shows "find_file_and_frame fs t = Inl ValueError"
  using assms find_loop_raises [of fs 0 t 0] by (simp add: find_file_and_frame_def)

lemma find_file_and_frame_negative:
  assumes "0 \<le> n" and "t < 0"
  shows "find_file_and_frame (n # ns) t = Inr (0, t)"
  using assms by (simp add: find_file_and_frame_def)

lemma getitem_negative:
  assumes "files_buffer d = r # rs" and "frames_per_file d = n # ns" and "0 \<le> n" and "idx < 0"
  shows "getitem to_arrays d idx = read_point_cloud to_arrays r idx"
  using assms
  by (simp add: getitem_def scans_def py_index_def find_file_and_frame_negative)

text \<open>
  Claim C1. The lookup, and with it \<open>dataset[idx]\<close>, is to fail with an out-of-range
  condition for \<open>idx = -1\<close> and \<open>idx = len(dataset)\<close>, and whenever the target is
  below 0 or at least the total frame count. The code checks the upper end only: on
  a table with the one entry 3 the target 3 raises, and the target -1 returns file 0
  with the local index -1.
\<close>

theorem find_file_and_frame_below_zero:
  "find_file_and_frame [3] (- 1) = Inr (0, - 1) \<and> find_file_and_frame [3] 3 = Inl ValueError"
  by (simp add: find_file_and_frame_def)

text \<open>
  Claim C4. For a target from 0 up to the sum of the table (excluded), the lookup
  returns the first file whose cumulative frame count exceeds the target, with the
  local index the target minus the cumulative count of the files before it.
\<close>

theorem find_file_and_frame_first_exceeding:
  assumes "0 \<le> target" and "target < sum_list fs"
  shows "\<exists>file_idx < length fs.
           find_file_and_frame fs target = Inr (file_idx, target - cumulative fs file_idx)
           \<and> target < cumulative fs (Suc file_idx)
           \<and> (\<forall>m < file_idx. cumulative fs (Suc m) \<le> target)"
  using assms by (rule find_file_and_frame_char)

theorem find_file_and_frame_first_exceeding_witness:
  "(0::int) \<le> 4 \<and> (4::int) < sum_list [2, 3, 1]
   \<and> find_file_and_frame [2, 3, 1] 4 = Inr (1, 4 - cumulative [2, 3, 1] 1)
   \<and> cumulative [2, 3, 1] 1 \<le> 4 \<and> 4 < cumulative [2, 3, 1] 2"
proof -
  have h: "(0::int) \<le> 4" "(4::int) < sum_list [2, 3, 1]" by simp_all
  from find_file_and_frame_first_exceeding [OF h] obtain k where k: "k < length [2, 3, 1::int]"
    "find_file_and_frame [2, 3, 1] 4 = Inr (k, 4 - cumulative [2, 3, 1] k)"
    "4 < cumulative [2, 3, 1] (Suc k)" "\<forall>m < k. cumulative [2, 3, 1] (Suc m) \<le> 4"
    by blast
  from k(1) have "k = 0 \<or> k = 1 \<or> k = 2" by auto
  moreover have "k \<noteq> 0"
  proof
    assume "k = 0"
    with k(3) have "4 < cumulative [2, 3, 1] (Suc 0)" by simp
    then show False by (simp add: cumulative_def)
  qed
  moreover have "k \<noteq> 2"
  proof
    assume "k = 2"
    with k(4) have "cumulative [2, 3, 1] (Suc 1) \<le> 4" by simp
    then show False by (simp add: cumulative_def)
  qed
  ultimately have "k = 1" by simp
  with k h show ?thesis by (simp add: cumulative_def)
qed

text \<open>
  Claim C6. For two valid global indices \<open>i < j\<close>, the pair (file, local frame) of
  \<open>i\<close> is lexicographically at most the pair of \<open>j\<close>.
\<close>

theorem find_file_and_frame_monotone:
  assumes "0 \<le> i" and "i < j" and "j < sum_list fs"
  shows "\<exists>a b c d. find_file_and_frame fs i = Inr (a, b) \<and> find_file_and_frame fs j = Inr (c, d)
           \<and> (a < c \<or> (a = c \<and> b \<le> d))"
proof -
  from assms have "0 \<le> i" "i < sum_list fs" by simp_all
  from find_file_and_frame_char [OF this] obtain a where a: "a < length fs"
    "find_file_and_frame fs i = Inr (a, i - cumulative fs a)"
    "i < cumulative fs (Suc a)" "\<forall>m < a. cumulative fs (Suc m) \<le> i"
    by blast
  from assms have "0 \<le> j" "j < sum_list fs" by simp_all
  from find_file_and_frame_char [OF this] obtain c where c: "c < length fs"
    "find_file_and_frame fs j = Inr (c, j - cumulative fs c)"
    "j < cumulative fs (Suc c)" "\<forall>m < c. cumulative fs (Suc m) \<le> j"
    by blast
  have "a \<le> c"
  proof (rule ccontr)
    assume "\<not> a \<le> c"
    then have "c < a" by simp
    with a(4) have "cumulative fs (Suc c) \<le> i" by simp
    with c(3) \<open>i < j\<close> show False by simp
  qed
  then have "a < c \<or> (a = c \<and> i - cumulative fs a \<le> j - cumulative fs c)"
    using \<open>i < j\<close> by auto
  with a(2) c(2) show ?thesis by blast
qed

theorem find_file_and_frame_monotone_witness:
  "(0::int) \<le> 1 \<and> (1::int) < 4 \<and> (4::int) < sum_list [2, 3, 1]
   \<and> find_file_and_frame [2, 3, 1] 1 = Inr (0, 1) \<and> find_file_and_frame [2, 3, 1] 4 = Inr (1, 2)"
proof -
  have h: "(0::int) \<le> 1" "(1::int) < 4" "(4::int) < sum_list [2, 3, 1]" by simp_all
  from find_file_and_frame_monotone [OF h] obtain a b c d where
    "find_file_and_frame [2, 3, 1] 1 = Inr (a, b)" "find_file_and_frame [2, 3, 1] 4 = Inr (c, d)"
    "a < c \<or> (a = c \<and> b \<le> d)"
    by blast
  then show ?thesis using h by (simp add: find_file_and_frame_def)
qed

subsection \<open>The object a construction builds\<close>

lemma foldl_snoc_map: "foldl (\<lambda>acc x. acc @ [f x]) a xs = a @ map f xs"
  by (induction xs arbitrary: a) simp_all

lemma create_buffer_eq: "create_buffer xs = xs"
  using foldl_snoc_map [of "\<lambda>x. x" "[]" xs] by (simp add: create_buffer_def)

lemma get_num_frames_eq: "get_num_frames buffer = map num_frames buffer"
  by (simp add: get_num_frames_def foldl_snoc_map)

lemma foldl_frames_concat:
  "foldl (\<lambda>acc file. foldl (\<lambda>acc fr. acc @ [g fr]) acc (h file)) a files
     = a @ concat (map (\<lambda>file. map g (h file)) files)"
  by (induction files arbitrary: a) (simp_all add: foldl_snoc_map)

lemma init_invariant:
  assumes "init env data_dir sequence = Inr (d, printed)"
  shows "files_buffer d = scan_files d"
    and "frames_per_file d = map num_frames (files_buffer d)"
  using assms
  by (auto simp: init_def Let_def create_buffer_eq get_num_frames_eq
           split: prod.splits sum.splits)

lemma sum_list_lengths:
  assumes "\<forall>r \<in> set rs. num_frames r = int (length (frames r))"
  shows "sum_list (map num_frames rs) = int (length (concat (map (\<lambda>r. map g (frames r)) rs)))"
  using assms by (induction rs) simp_all

subsection \<open>The example recording, evaluated\<close>

lemma parse_sequence_range: "parse_sequence ''seq#11-13'' = (''seq'', Some (11, 13))"
  by code_simp

lemma path_join_data_seq: "path_join ''data'' ''seq'' = ''data/seq''"
  by code_simp

lemma example_range_11_13:
  "filter_file_range (glob example_env) ''data/seq'' (Some 11) (Some 13) = Inr (1, 4)"
  by code_simp

lemma example_loader:
  "Dataloader example_env ''data/seq'' =
     Inr [example_record 10 2, example_record 11 3, example_record 12 1,
          example_record 13 2, example_record 14 2]"
  by (simp add: example_env_def)

lemma num_frames_example_record: "num_frames (example_record fid n) = int n"
  by (simp add: example_record_def)

lemma init_example_dataset:
  "init example_env ''data'' ''seq#11-13'' = Inr (example_dataset, [])"
  by (simp add: init_def Let_def parse_sequence_range path_join_data_seq example_range_11_13
        example_loader py_slice_def create_buffer_eq get_num_frames_eq
        num_frames_example_record example_dataset_def)

subsection \<open>Length and timestamps of the whole sequence\<close>

text \<open>
  Claim C5. \<open>len(dataset)\<close> is the sum of \<open>num_frames\<close> over the buffered file
  records, for every object that \<open>__init__\<close> builds.
\<close>

theorem len_sum_num_frames:
  assumes "init env data_dir sequence = Inr (d, printed)"
  shows "len d = sum_list (map num_frames (files_buffer d))"
  using init_invariant(2) [OF assms] by (simp add: len_def)

theorem len_sum_num_frames_witness:
  "init example_env ''data'' ''seq#11-13'' = Inr (example_dataset, [])
   \<and> len example_dataset = 6
   \<and> map num_frames (files_buffer example_dataset) = [3, 1, 2]"
proof -
  note h = init_example_dataset
  from len_sum_num_frames [OF h]
  have "len example_dataset = sum_list (map num_frames (files_buffer example_dataset))" .
  moreover have "map num_frames (files_buffer example_dataset) = [3, 1, 2]"
    by (simp add: example_dataset_def num_frames_example_record)
  ultimately show ?thesis using h by simp
qed

text \<open>
  Claim C9. \<open>get_frames_timestamps\<close> returns a column of \<open>len(dataset)\<close> rows of one
  entry each, the timestamps of the frames ordered by file and, within a file, by
  frame. The frames of a file are what iterating its record yields; that there are
  \<open>num_frames\<close> of them is the reader's contract, the second hypothesis.
\<close>

theorem get_frames_timestamps_column:
  assumes "init env data_dir sequence = Inr (d, printed)"
    and "\<forall>r \<in> set (files_buffer d). num_frames r = int (length (frames r))"
  shows "int (length (get_frames_timestamps d)) = len d
         \<and> (\<forall>row \<in> set (get_frames_timestamps d). length row = 1)
         \<and> get_frames_timestamps d =
             map (\<lambda>t. [t]) (concat (map (\<lambda>file. map timestamp (frames file)) (files_buffer d)))"
proof -
  have ts: "get_frames_timestamps d =
      map (\<lambda>t. [t]) (concat (map (\<lambda>file. map timestamp (frames file)) (files_buffer d)))"
    by (simp add: get_frames_timestamps_def foldl_frames_concat)
  have "len d = sum_list (map num_frames (files_buffer d))"
    using init_invariant(2) [OF assms(1)] by (simp add: len_def)
  also have "\<dots> = int (length (concat (map (\<lambda>r. map timestamp (frames r)) (files_buffer d))))"
    using assms(2) by (rule sum_list_lengths)
  finally have "int (length (get_frames_timestamps d)) = len d"
    by (simp only: ts length_map)
  moreover have "\<forall>row \<in> set (get_frames_timestamps d). length row = 1"
    by (auto simp: ts)
  ultimately show ?thesis using ts by blast
qed

lemma example_dataset_contract:
  "\<forall>r \<in> set (files_buffer example_dataset). num_frames r = int (length (frames r))"
  by (simp add: example_dataset_def example_record_def)

theorem get_frames_timestamps_column_witness:
  "init example_env ''data'' ''seq#11-13'' = Inr (example_dataset, [])
   \<and> list_all (\<lambda>r. num_frames r = int (length (frames r))) (files_buffer example_dataset)
   \<and> get_frames_timestamps example_dataset = [[1100], [1101], [1102], [1200], [1300], [1301]]
   \<and> len example_dataset = 6"
proof -
  note h = init_example_dataset example_dataset_contract
  from get_frames_timestamps_column [OF h]
  have "int (length (get_frames_timestamps example_dataset)) = len example_dataset"
    and "get_frames_timestamps example_dataset =
      map (\<lambda>t. [t]) (concat (map (\<lambda>file. map timestamp (frames file)) (files_buffer example_dataset)))"
    by blast+
  moreover have "concat (map (\<lambda>file. map timestamp (frames file)) (files_buffer example_dataset))
      = [1100, 1101, 1102, 1200, 1300, 1301]"
    by (simp add: example_dataset_def example_record_def example_frame_def upt_rec)
  ultimately show ?thesis using h by (simp add: list_all_iff)
qed

subsection \<open>The projection utility at the last frame of a file\<close>

lemma find_file_and_frame_file_idx:
  assumes "find_file_and_frame fs t = Inr (k, r)"
  shows "k < length fs"
  using find_loop_sound [of t 0 0 fs k r] assms by (auto simp: find_file_and_frame_def)

lemma py_index_nat: "k < length xs \<Longrightarrow> py_index xs (int k) = Inr (xs ! k)"
  by (simp add: py_index_def)

text \<open>
  Claim C10. When a global index resolves to the last local frame of a buffered file
  (\<open>frame_idx = num_frames - 1\<close>), \<open>project_points\<close> asks the record of that file for
  the frame at \<open>frame_idx + 1\<close>, which is the file's \<open>num_frames\<close> and so outside
  \<open>0 ..< num_frames\<close>; what the reader answers there is what \<open>project_points\<close> goes on
  with, and an error of the reader is the error of \<open>project_points\<close>.
\<close>

theorem project_points_last_frame:
  assumes "init env data_dir sequence = Inr (d, printed)"
    and "find_file_and_frame (frames_per_file d) idx = Inr (file_idx, frame_idx)"
    and "frame_idx = num_frames (files_buffer d ! file_idx) - 1"
  shows "file_idx < length (files_buffer d)
         \<and> frame_idx + 1 = num_frames (files_buffer d ! file_idx)
         \<and> frame_idx + 1 \<notin> {0 ..< num_frames (files_buffer d ! file_idx)}
         \<and> project_points get_projection_img with_points d idx points =
             (let file = files_buffer d ! file_idx
              in case get_frame file (num_frames file) of
                   Inl e \<Rightarrow> Inl e
                 | Inr next_frame \<Rightarrow>
                     (case get_frame file frame_idx of
                        Inl e \<Rightarrow> Inl e
                      | Inr this_frame \<Rightarrow>
                          Inr (idx, get_projection_img (camera_STEREO_LEFT next_frame)
                                 (case points of
                                    None \<Rightarrow> lidar_TOP this_frame
                                  | Some pts \<Rightarrow> with_points (lidar_TOP this_frame) pts))))"
proof -
  from find_file_and_frame_file_idx [OF assms(2)] init_invariant(2) [OF assms(1)]
  have k: "file_idx < length (files_buffer d)" by simp
  from assms(3) have n: "frame_idx + 1 = num_frames (files_buffer d ! file_idx)" by simp
  have "project_points get_projection_img with_points d idx points =
      (case get_frame (files_buffer d ! file_idx) (frame_idx + 1) of
         Inl e \<Rightarrow> Inl e
       | Inr next_frame \<Rightarrow>
           (case get_frame (files_buffer d ! file_idx) frame_idx of
              Inl e \<Rightarrow> Inl e
            | Inr this_frame \<Rightarrow>
                Inr (idx, get_projection_img (camera_STEREO_LEFT next_frame)
                       (case points of
                          None \<Rightarrow> lidar_TOP this_frame
                        | Some pts \<Rightarrow> with_points (lidar_TOP this_frame) pts))))"
    by (simp add: project_points_def assms(2) py_index_nat [OF k] Let_def split: sum.splits)
  with k n show ?thesis by (simp add: Let_def)
qed

theorem project_points_last_frame_witness:
  "init example_env ''data'' ''seq#11-13'' = Inr (example_dataset, [])
   \<and> find_file_and_frame (frames_per_file example_dataset) 2 = Inr (0, 2)
   \<and> (2::int) = num_frames (files_buffer example_dataset ! 0) - 1
   \<and> project_points (\<lambda>img lidar. ()) (\<lambda>lidar pts. lidar) example_dataset 2 (None :: unit option)
       = Inl ValueError"
proof -
  have h: "init example_env ''data'' ''seq#11-13'' = Inr (example_dataset, [])"
    "find_file_and_frame (frames_per_file example_dataset) 2 = Inr (0, 2)"
    "(2::int) = num_frames (files_buffer example_dataset ! 0) - 1"
    by (simp_all add: init_example_dataset find_file_and_frame_def example_dataset_def
          num_frames_example_record)
  from project_points_last_frame [OF h, of "\<lambda>img lidar. ()" "\<lambda>lidar pts. lidar" None]
  have "project_points (\<lambda>img lidar. ()) (\<lambda>lidar pts. lidar) example_dataset 2 (None :: unit option)
      = Inl ValueError"
    by (simp add: example_dataset_def example_record_def Let_def)
  with h show ?thesis by simp
qed

subsection \<open>Range resolution\<close>

lemma first_index_None: "first_index ys x = None \<longleftrightarrow> x \<notin> set ys"
  by (induction ys) auto

lemma first_index_Some:
  "first_index ys x = Some i \<longleftrightarrow> i < length ys \<and> ys ! i = x \<and> (\<forall>j < i. ys ! j \<noteq> x)"
proof (induction ys arbitrary: i)
  case Nil
  then show ?case by simp
next
  case (Cons y ys)
  show ?case
  proof (cases "y = x")
    case True
    then show ?thesis by (cases i) auto
  next
    case False
    show ?thesis
    proof (cases i)
      case 0
      with False show ?thesis by simp
    next
      case (Suc k)
      have "(\<forall>j < Suc k. (y # ys) ! j \<noteq> x) \<longleftrightarrow> (\<forall>j < k. ys ! j \<noteq> x)"
        using False by (auto simp: less_Suc_eq_0_disj)
      with Suc False Cons.IH [of k] show ?thesis by auto
    qed
  qed
qed

lemma scanned_ids_Cons:
  "scanned_ids (y # ys) e = (if y = e then [y] else y # scanned_ids ys e)"
  by (simp add: scanned_ids_def split: option.splits)

lemma filter_loop_from:
  assumes "map file_id files = map Inr ids" and "0 < idx"
  shows "filter_loop s e idx sf ef files =
           Inr (if sf \<noteq> 0 then sf
                else (case first_index (scanned_ids ids e) s of None \<Rightarrow> 0 | Some i \<Rightarrow> idx + i),
                case first_index ids e of None \<Rightarrow> ef | Some j \<Rightarrow> idx + j + 1)"
  using assms
proof (induction files arbitrary: ids idx sf)
  case Nil
  then show ?case by (simp add: scanned_ids_def)
next
  case (Cons f fs)
  from Cons.prems(1) obtain y ys where ids: "ids = y # ys" "file_id f = Inr y"
    "map file_id fs = map Inr ys" by (cases ids) auto
  show ?case
  proof (cases "y = e")
    case True
    with ids Cons.prems(2) show ?thesis by (simp add: scanned_ids_Cons Let_def)
  next
    case False
    let ?sf = "if y = s \<and> sf = 0 then idx else sf"
    from False ids have "filter_loop s e idx sf ef (f # fs) = filter_loop s e (Suc idx) ?sf ef fs"
      by (simp add: Let_def)
    also note Cons.IH [OF ids(3), of "Suc idx" ?sf]
    finally show ?thesis
      using False ids(1) Cons.prems(2)
      by (auto simp: scanned_ids_Cons split: option.splits)
  qed
qed

text \<open>
  Claim C3. Range resolution sets \<open>start_file\<close> to the index of the first file whose
  id is \<open>startID\<close>, taking the first match only and ignoring later files with the same
  id, and sets \<open>end_file\<close> to the index of the first file whose id is \<open>endID\<close> plus 1,
  where the scan stops. The test \<open>start_file == 0\<close> of the loop reads 0 as ``no match
  yet'', so a match at index 0 is replaced by the next visited file with the same id:
  for the ids 5, 5, 7 and the range 5 to 7 the code resolves (1, 3), the slice
  without the first file, where the statement gives (0, 3).
\<close>

theorem filter_file_range_repeated_start_id:
  "map file_id (sort (repeated_id_glob (path_join ''data/run'' ''*.4mse''))) = map Inr [5, 5, 7]
   \<and> filter_file_range repeated_id_glob ''data/run'' (Some 5) (Some 7) = Inr (1, 3)
   \<and> spec_filter_file_range [5, 5, 7] 5 7 = (0, 3)"
  by code_simp

lemma filter_file_range_scan:
  assumes ids: "map file_id (sort (g (path_join dir ''*.4mse''))) = map Inr ids"
    and once: "first_index (scanned_ids ids end_id) start_id = Some 0
               \<longrightarrow> start_id \<notin> set (tl (scanned_ids ids end_id))"
  shows "filter_file_range g dir (Some start_id) (Some end_id) =
           Inr (case first_index (scanned_ids ids end_id) start_id of None \<Rightarrow> 0 | Some i \<Rightarrow> i,
                case first_index ids end_id of None \<Rightarrow> length ids | Some j \<Rightarrow> j + 1)"
proof -
  let ?files = "sort (g (path_join dir ''*.4mse''))"
  have len: "length ?files = length ids" using ids by (metis length_map)
  have run: "filter_file_range g dir (Some start_id) (Some end_id)
      = filter_loop start_id end_id 0 0 (length ids) ?files"
    by (simp add: filter_file_range_def Let_def len del: length_sort)
  show ?thesis
  proof (cases ?files)
    case Nil
    with ids run show ?thesis by (simp add: scanned_ids_def)
  next
    case (Cons f fs)
    with ids obtain y ys where ys: "ids = y # ys" "file_id f = Inr y"
      "map file_id fs = map Inr ys" by (cases ids) auto
    show ?thesis
    proof (cases "y = end_id")
      case True
      with run Cons ys show ?thesis by (simp add: scanned_ids_Cons Let_def)
    next
      case False
      with Cons ys have "filter_loop start_id end_id 0 0 (length ids) ?files
          = filter_loop start_id end_id (Suc 0) 0 (length ids) fs"
        by (simp add: Let_def)
      also have "\<dots> = Inr (case first_index (scanned_ids ys end_id) start_id of
                             None \<Rightarrow> 0 | Some i \<Rightarrow> Suc 0 + i,
                           case first_index ys end_id of
                             None \<Rightarrow> length ids | Some j \<Rightarrow> Suc 0 + j + 1)"
        using filter_loop_from [OF ys(3), of "Suc 0" start_id end_id 0 "length ids"] by simp
      finally have loop: "filter_file_range g dir (Some start_id) (Some end_id)
          = Inr (case first_index (scanned_ids ys end_id) start_id of
                   None \<Rightarrow> 0 | Some i \<Rightarrow> Suc 0 + i,
                 case first_index ys end_id of
                   None \<Rightarrow> length ids | Some j \<Rightarrow> Suc 0 + j + 1)"
        using run by simp
      have hi: "(case first_index ys end_id of None \<Rightarrow> length ids | Some j \<Rightarrow> Suc 0 + j + 1)
          = (case first_index ids end_id of None \<Rightarrow> length ids | Some j \<Rightarrow> j + 1)"
        using False ys(1) by (cases "first_index ys end_id") simp_all
      have sc: "scanned_ids ids end_id = y # scanned_ids ys end_id"
        using False ys(1) by (simp add: scanned_ids_Cons)
      have lo: "(case first_index (scanned_ids ys end_id) start_id of
                   None \<Rightarrow> 0 | Some i \<Rightarrow> Suc 0 + i)
          = (case first_index (scanned_ids ids end_id) start_id of None \<Rightarrow> 0 | Some i \<Rightarrow> i)"
      proof (cases "y = start_id")
        case True
        with once sc have "start_id \<notin> set (scanned_ids ys end_id)" by simp
        then have "first_index (scanned_ids ys end_id) start_id = None"
          by (simp add: first_index_None)
        with True sc show ?thesis by simp
      next
        case ne: False
        then show ?thesis
          by (cases "first_index (scanned_ids ys end_id) start_id") (simp_all add: sc)
      qed
      from loop show ?thesis by (simp only: hi lo)
    qed
  qed
qed

text \<open>
  Everywhere else the code resolves what the specification says. Let the sorted files
  have the ids \<open>ids\<close>. Unless the file at index 0 has the id \<open>startID\<close> and a later
  visited file has it again (the second hypothesis), \<open>_filter_file_range\<close> returns
  the pair of \<open>spec_filter_file_range\<close>. For the ids 10 to 14 and \<open>seq#11-13\<close> this is
  (1, 4), the files with the ids 11, 12, 13 in this order.
\<close>

lemma filter_file_range_agrees:
  assumes ids: "map file_id (sort (g (path_join dir ''*.4mse''))) = map Inr ids"
    and once: "first_index (scanned_ids ids end_id) start_id = Some 0
               \<longrightarrow> start_id \<notin> set (tl (scanned_ids ids end_id))"
  shows "filter_file_range g dir (Some start_id) (Some end_id) =
           Inr (spec_filter_file_range ids start_id end_id)"
proof -
  have "filter_file_range g dir (Some start_id) (Some end_id) =
      Inr (case first_index (scanned_ids ids end_id) start_id of None \<Rightarrow> 0 | Some i \<Rightarrow> i,
           case first_index ids end_id of None \<Rightarrow> length ids | Some j \<Rightarrow> j + 1)"
    using ids once by (rule filter_file_range_scan)
  then show ?thesis by (simp add: spec_filter_file_range_def)
qed

lemma filter_file_range_example:
  "map file_id (sort (glob example_env (path_join ''data/seq'' ''*.4mse'')))
     = map Inr [10, 11, 12, 13, 14]
   \<and> first_index (scanned_ids [10, 11, 12, 13, 14] 13) 11 = Some 1
   \<and> filter_file_range (glob example_env) ''data/seq'' (Some 11) (Some 13) = Inr (1, 4)
   \<and> py_slice (sort (glob example_env (path_join ''data/seq'' ''*.4mse''))) 1 4
       = [''data/seq/id11_2024-09-27_10-32-32.4mse'',
          ''data/seq/id12_2024-09-27_10-33-32.4mse'',
          ''data/seq/id13_2024-09-27_10-34-32.4mse'']
   \<and> init example_env ''data'' ''seq#11-13'' = Inr (example_dataset, [])"
proof -
  have ids: "map file_id (sort (glob example_env (path_join ''data/seq'' ''*.4mse'')))
      = map Inr [10, 11, 12, 13, 14]"
    by code_simp
  have first: "first_index (scanned_ids [10, 11, 12, 13, 14] 13) 11 = Some 1"
    by code_simp
  then have once: "first_index (scanned_ids [10, 11, 12, 13, 14] 13) 11 = Some 0
      \<longrightarrow> 11 \<notin> set (tl (scanned_ids [10, 11, 12, 13, 14] 13))"
    by simp
  have "first_index [10, 11, 12, 13, 14] 13 = Some 3"
    by code_simp
  with filter_file_range_agrees [where g = "glob example_env" and dir = "''data/seq''"
      and ids = "[10, 11, 12, 13, 14]" and start_id = 11 and end_id = 13, OF ids once] first
  have "filter_file_range (glob example_env) ''data/seq'' (Some 11) (Some 13) = Inr (1, 4)"
    by (simp add: spec_filter_file_range_def)
  moreover have "py_slice (sort (glob example_env (path_join ''data/seq'' ''*.4mse''))) 1 4
      = [''data/seq/id11_2024-09-27_10-32-32.4mse'',
         ''data/seq/id12_2024-09-27_10-33-32.4mse'',
         ''data/seq/id13_2024-09-27_10-34-32.4mse'']"
    by code_simp
  ultimately show ?thesis using ids first init_example_dataset by simp
qed

subsection \<open>A specifier without a well-formed range\<close>

lemma parse_sequence_fallback:
  assumes "snd (parse_sequence sequence) = None"
  shows "parse_sequence sequence = (sequence, None)"
  using assms
  by (auto simp: parse_sequence_def split: list.splits sum.splits)

lemma split_on_absent:
  assumes "sep \<notin> set s"
  shows "split_on sep s = [s]"
  using assms by (induction s) auto

lemma parse_sequence_no_range:
  assumes "CHR ''#'' \<notin> set sequence"
  shows "parse_sequence sequence = (sequence, None)"
  using assms by (simp add: parse_sequence_def split_on_absent)

lemma filter_file_range_no_range:
  "filter_file_range g dir None None = Inr (0, length (g (path_join dir ''*.4mse'')))"
  by (simp add: filter_file_range_def)

text \<open>
  Claim C2. A specifier whose range is absent or malformed is to resolve the files
  that the plain name resolves, after the message is printed, without raising. For
  \<open>seq#11\<close> and \<open>seq#a-b\<close> the handler keeps the whole specifier as the name, so the
  directory searched is \<open>data/seq#11\<close> (\<open>data/seq#a-b\<close>), not \<open>data/seq\<close>: on the
  example recording the object built holds no file, where \<open>seq\<close> holds all five.
\<close>

theorem init_malformed_range:
  "(case init example_env ''data'' ''seq#11'' of
      Inl e \<Rightarrow> None
    | Inr (d, printed) \<Rightarrow>
        Some (sequence_name d, aeif_sequence_dir d, start_file d, end_file d,
              frames_per_file d, printed))
     = Some (''seq#11'', ''data/seq#11'', 0, 0, [], [no_maneuver_message])
   \<and> (case init example_env ''data'' ''seq#a-b'' of
      Inl e \<Rightarrow> None
    | Inr (d, printed) \<Rightarrow>
        Some (sequence_name d, aeif_sequence_dir d, start_file d, end_file d,
              frames_per_file d, printed))
     = Some (''seq#a-b'', ''data/seq#a-b'', 0, 0, [], [no_maneuver_message])
   \<and> (case init example_env ''data'' ''seq'' of
      Inl e \<Rightarrow> None
    | Inr (d, printed) \<Rightarrow>
        Some (sequence_name d, aeif_sequence_dir d, start_file d, end_file d,
              frames_per_file d, printed))
     = Some (''seq'', ''data/seq'', 0, 5, [2, 3, 1, 2, 2], [no_maneuver_message])"
  by code_simp

end
